theory Spec2Isabelle
  imports Main
begin

section \<open>The entity system of jsfw (entity-system.js)\<close>

text \<open>
  The registry \<^verbatim>\<open>EntitySystem\<close> keeps its tables in closure variables
  (\<^verbatim>\<open>counter\<close>, \<^verbatim>\<open>entities\<close>, \<^verbatim>\<open>entityComponentMap\<close>,
  \<^verbatim>\<open>removedEntityComponentMap\<close>, \<^verbatim>\<open>entitySets\<close>) and mutates them in place.
  The model passes the state explicitly. The per-entity component maps are JavaScript
  objects held by reference: \<^verbatim>\<open>removeEntity\<close> stores the very same object in the
  removed registry that the active registry holds, so the two tables map ids to
  addresses of an explicit store (\<open>objects\<close>), and a write through one table is seen
  through the other.

  Modelling conventions:
  \<^item> a table \<^verbatim>\<open>{}\<close> is a map over its own properties; entity ids are the values of the
    counter (natural numbers; the counter is a JavaScript number, exact below \<open>2^53\<close>),
    component names are strings. A read \<^verbatim>\<open>table[name]\<close> of the source also finds
    what a plain object inherits from \<^verbatim>\<open>Object.prototype\<close>; the definitions follow
    the code for the names that are not inherited (\<open>inheritedName\<close>), and every
    statement about a lookup by an arbitrary component name assumes such a name;
  \<^item> \<^verbatim>\<open>if (x)\<close> and \<^verbatim>\<open>!x\<close> test JavaScript truthiness (\<open>truthy\<close>); reading a
    property that is absent yields \<^verbatim>\<open>undefined\<close> (\<open>getProp\<close>);
  \<^item> a call on \<^verbatim>\<open>undefined\<close> raises \<^verbatim>\<open>TypeError\<close>: the result type of
    \<open>setComponent\<close> is a sum with the error on the left;
  \<^item> \<^verbatim>\<open>for (key in entities)\<close> visits integer keys in ascending order.
\<close>

subsection \<open>Component values\<close>

datatype jsval =
    JUndefined
  | JNull
  | JBool bool
  | JNum int
  | JNaN
  | JStr string
  | JObj nat

fun truthy :: "jsval \<Rightarrow> bool" where
  "truthy JUndefined = False"
| "truthy JNull = False"
| "truthy (JBool b) = b"
| "truthy (JNum n) = (n \<noteq> 0)"
| "truthy JNaN = False"
| "truthy (JStr s) = (s \<noteq> [])"
| "truthy (JObj a) = True"

definition getProp :: "(string \<rightharpoonup> jsval) \<Rightarrow> string \<Rightarrow> jsval" where
  "getProp obj name = (case obj name of None \<Rightarrow> JUndefined | Some v \<Rightarrow> v)"

text \<open>
  The members of \<^verbatim>\<open>Object.prototype\<close> (ECMAScript with its Annex B), which every
  table \<^verbatim>\<open>{}\<close> of the registry inherits. Each of them is a truthy value that is not
  an \<^verbatim>\<open>EntitySet\<close>. Under such a name the source does not do what the definitions
  below say: \<^verbatim>\<open>entitySets[name]\<close> and \<^verbatim>\<open>components[name]\<close> are found although the
  registry never stored them, so that \<^verbatim>\<open>setComponent\<close> and \<^verbatim>\<open>removeComponent\<close> on a
  known entity end in a \<^verbatim>\<open>TypeError\<close> (lines 200 and 244), and \<^verbatim>\<open>getComponent\<close>,
  \<^verbatim>\<open>hasComponent\<close> and \<^verbatim>\<open>getEntities\<close> return the inherited member. Entity ids are
  numbers and never such a name.
\<close>

definition ObjectPrototype_names :: "string list" where
  "ObjectPrototype_names =
     [''constructor'', ''__proto__'', ''__defineGetter__'', ''__defineSetter__'',
      ''__lookupGetter__'', ''__lookupSetter__'', ''hasOwnProperty'', ''isPrototypeOf'',
      ''propertyIsEnumerable'', ''toLocaleString'', ''toString'', ''valueOf'']"

definition inheritedName :: "string \<Rightarrow> bool" where
  "inheritedName name \<longleftrightarrow> name \<in> set ObjectPrototype_names"

subsection \<open>Collaborators that are not part of the sources\<close>

text \<open>
  Modelled from the spec: the class \<^verbatim>\<open>Entity\<close> (\<^verbatim>\<open>./entity\<close>) is imported but not
  among the sources. The spec describes it as an identity carrier with a stable id that
  supports arbitrary named field assignment. A handle is the address of the object
  (\<open>eref\<close>, compared by \<^verbatim>\<open>===\<close>) together with its id; the dynamically assigned
  fields live in the store \<open>entityFields\<close> of the state.
\<close>

record entity =
  eref :: nat
  entity_id :: nat

text \<open>
  Modelled from the spec: the class \<^verbatim>\<open>EntitySet\<close> (\<^verbatim>\<open>./entity-set\<close>) is imported but
  not among the sources. The spec gives its interface: \<^verbatim>\<open>add\<close>, \<^verbatim>\<open>change\<close>,
  \<^verbatim>\<open>remove\<close> and \<^verbatim>\<open>flush\<close>, none of which fails. An entity set is modelled by
  the sequence of calls the registry has made on it, oldest first, which is all the
  registry determines about it.
\<close>

datatype notification = Add entity | Change entity | Remove entity | Flush

type_synonym EntitySet = "notification list"

definition EntitySet_add :: "EntitySet \<Rightarrow> entity \<Rightarrow> EntitySet" where
  "EntitySet_add entitySet e = entitySet @ [Add e]"

definition EntitySet_change :: "EntitySet \<Rightarrow> entity \<Rightarrow> EntitySet" where
  "EntitySet_change entitySet e = entitySet @ [Change e]"

definition EntitySet_remove :: "EntitySet \<Rightarrow> entity \<Rightarrow> EntitySet" where
  "EntitySet_remove entitySet e = entitySet @ [Remove e]"

definition EntitySet_flush :: "EntitySet \<Rightarrow> EntitySet" where
  "EntitySet_flush entitySet = entitySet @ [Flush]"

text \<open>
  Modelled from the spec: which entities an \<^verbatim>\<open>EntitySet\<close> contains. The spec's
  testable properties read membership right after the call: after \<^verbatim>\<open>setComponent\<close> the
  set contains the entity, after \<^verbatim>\<open>removeComponent\<close> it no longer does, and a
  \<^verbatim>\<open>remove\<close> of a non-member is a no-op. So an entity is a member when the last
  \<^verbatim>\<open>add\<close> or \<^verbatim>\<open>remove\<close> received for that object was an \<^verbatim>\<open>add\<close>.
\<close>

fun member_after :: "entity \<Rightarrow> bool \<Rightarrow> notification \<Rightarrow> bool" where
  "member_after e b (Add x) = (if eref x = eref e then True else b)"
| "member_after e b (Remove x) = (if eref x = eref e then False else b)"
| "member_after e b (Change x) = b"
| "member_after e b Flush = b"

definition contains :: "EntitySet \<Rightarrow> entity \<Rightarrow> bool" where
  "contains entitySet e = foldl (member_after e) False entitySet"

subsection \<open>The registry state\<close>

datatype error = TypeError

record EntitySystem =
  isLazySets :: bool
  counter :: nat
  entities :: "nat \<rightharpoonup> entity"
  entityComponentMap :: "nat \<rightharpoonup> nat"
  removedEntityComponentMap :: "nat \<rightharpoonup> nat"
  entitySets :: "string \<rightharpoonup> EntitySet"
  objects :: "nat \<Rightarrow> (string \<rightharpoonup> jsval)"
  nextObject :: nat
  entityFields :: "nat \<Rightarrow> (string \<rightharpoonup> jsval)"
  nextEntity :: nat

text \<open>The constructor: lines 17 to 65.\<close>

definition EntitySystem_new :: EntitySystem where
  "EntitySystem_new =
     \<lparr> isLazySets = False, counter = 0, entities = Map.empty,
       entityComponentMap = Map.empty, removedEntityComponentMap = Map.empty,
       entitySets = Map.empty, objects = (\<lambda>a. Map.empty), nextObject = 0,
       entityFields = (\<lambda>a. Map.empty), nextEntity = 0 \<rparr>"

subsection \<open>Entity lifecycle\<close>

definition generateUUID :: "EntitySystem \<Rightarrow> nat \<times> EntitySystem" where
  "generateUUID s = (let current = counter s in (current, s\<lparr>counter := counter s + 1\<rparr>))"

text \<open>\<^verbatim>\<open>new Entity(id)\<close>: a fresh object without dynamic fields.\<close>

definition Entity_new :: "EntitySystem \<Rightarrow> nat \<Rightarrow> entity \<times> EntitySystem" where
  "Entity_new s uuid =
     (\<lparr> eref = nextEntity s, entity_id = uuid \<rparr>,
      s\<lparr> entityFields := (entityFields s)(nextEntity s := Map.empty), nextEntity := nextEntity s + 1 \<rparr>)"

text \<open>The object literal \<^verbatim>\<open>{}\<close>: a fresh object without properties.\<close>

definition Object_new :: "EntitySystem \<Rightarrow> nat \<times> EntitySystem" where
  "Object_new s =
     (nextObject s,
      s\<lparr> objects := (objects s)(nextObject s := Map.empty), nextObject := nextObject s + 1 \<rparr>)"

text \<open>The parameter \<open>idp\<close> is the documented \<^verbatim>\<open>id\<close> argument, which the body never reads.\<close>

definition createEntity :: "EntitySystem \<Rightarrow> jsval \<Rightarrow> entity \<times> EntitySystem" where
  "createEntity s idp =
     (let (uuid, s1) = generateUUID s;
          (entity, s2) = Entity_new s1 uuid;
          s3 = s2\<lparr> entities := (entities s2)(entity_id entity \<mapsto> entity) \<rparr>;
          (m, s4) = Object_new s3;
          s5 = s4\<lparr> entityComponentMap := (entityComponentMap s4)(entity_id entity \<mapsto> m) \<rparr>
      in (entity, s5))"

definition hasEntity :: "EntitySystem \<Rightarrow> entity \<Rightarrow> bool" where
  "hasEntity s entity =
     (case entities s (entity_id entity) of
        None \<Rightarrow> False
      | Some ent \<Rightarrow> eref ent = eref entity)"

definition getEntityByID :: "EntitySystem \<Rightarrow> nat \<Rightarrow> entity option" where
  "getEntityByID s k = entities s k"

definition removeEntity :: "EntitySystem \<Rightarrow> entity \<Rightarrow> EntitySystem" where
  "removeEntity s entity =
     (case entities s (entity_id entity) of
        None \<Rightarrow> s
      | Some storedEntity \<Rightarrow>
          s\<lparr> removedEntityComponentMap :=
               (removedEntityComponentMap s)
                 (entity_id entity := entityComponentMap s (entity_id entity)),
             entitySets :=
               (\<lambda>componentName.
                  map_option (\<lambda>entitySet. EntitySet_remove entitySet entity)
                    (entitySets s componentName)),
             entities := (entities s)(entity_id entity := None) \<rparr>)"

subsection \<open>Components\<close>

definition removedComponent :: "EntitySystem \<Rightarrow> entity \<Rightarrow> string \<Rightarrow> jsval" where
  "removedComponent s entity componentName =
     (case removedEntityComponentMap s (entity_id entity) of
        None \<Rightarrow> JNull
      | Some componentList \<Rightarrow>
          if truthy (getProp (objects s componentList) componentName)
          then getProp (objects s componentList) componentName
          else JNull)"

definition getComponent :: "EntitySystem \<Rightarrow> entity \<Rightarrow> string \<Rightarrow> jsval" where
  "getComponent s entity componentName =
     (case entityComponentMap s (entity_id entity) of
        None \<Rightarrow> removedComponent s entity componentName
      | Some componentList \<Rightarrow>
          if truthy (getProp (objects s componentList) componentName)
          then getProp (objects s componentList) componentName
          else removedComponent s entity componentName)"

definition setComponent ::
  "EntitySystem \<Rightarrow> entity \<Rightarrow> string \<Rightarrow> jsval \<Rightarrow> error + EntitySystem" where
  "setComponent s entity componentName component =
     (if entities s (entity_id entity) = None then Inr s
      else
        let s1 = s\<lparr> entityFields :=
                     (entityFields s)(eref entity := (entityFields s (eref entity))(componentName \<mapsto> component)) \<rparr>
        in
        (case entityComponentMap s1 (entity_id entity) of
          None \<Rightarrow> Inl TypeError
        | Some components \<Rightarrow>
            (case entitySets s1 componentName of
               None \<Rightarrow>
                 if isLazySets s1
                 then Inr (s1\<lparr> objects :=
                                (objects s1)(components :=
                                   (objects s1 components)(componentName \<mapsto> component)) \<rparr>)
                 else
                   Inr (s1\<lparr> entitySets :=
                              (entitySets s1)(componentName \<mapsto>
                                 (if truthy (getProp (objects s1 components) componentName)
                                  then EntitySet_change [] entity
                                  else EntitySet_add [] entity)),
                            objects :=
                              (objects s1)(components :=
                                 (objects s1 components)(componentName \<mapsto> component)) \<rparr>)
             | Some entitySet \<Rightarrow>
                 Inr (s1\<lparr> entitySets :=
                            (entitySets s1)(componentName \<mapsto>
                               (if truthy (getProp (objects s1 components) componentName)
                                then EntitySet_change entitySet entity
                                else EntitySet_add entitySet entity)),
                          objects :=
                            (objects s1)(components :=
                               (objects s1 components)(componentName \<mapsto> component)) \<rparr>))))"

definition hasComponent :: "EntitySystem \<Rightarrow> entity \<Rightarrow> string \<Rightarrow> jsval" where
  "hasComponent s entity componentName =
     (case entityComponentMap s (entity_id entity) of
        None \<Rightarrow> JBool False
      | Some components \<Rightarrow> getProp (objects s components) componentName)"

definition removeComponent :: "EntitySystem \<Rightarrow> entity \<Rightarrow> string \<Rightarrow> EntitySystem" where
  "removeComponent s entity componentName =
     (case entityComponentMap s (entity_id entity) of
        None \<Rightarrow> s
      | Some components \<Rightarrow>
          let (removed, s1) =
                (case removedEntityComponentMap s (entity_id entity) of
                   Some r \<Rightarrow> (r, s)
                 | None \<Rightarrow>
                     (let (r, s0) = Object_new s
                      in (r, s0\<lparr> removedEntityComponentMap :=
                                   (removedEntityComponentMap s0)(entity_id entity \<mapsto> r) \<rparr>)));
              s2 = s1\<lparr> objects :=
                         (objects s1)(removed :=
                            (objects s1 removed)
                              (componentName \<mapsto> getProp (objects s1 components) componentName)) \<rparr>;
              s3 = s2\<lparr> objects :=
                         (objects s2)(components :=
                            (objects s2 components)(componentName := None)) \<rparr>
          in
          (case entitySets s3 componentName of
             None \<Rightarrow> s3
           | Some entitySet \<Rightarrow>
               s3\<lparr> entitySets :=
                     (entitySets s3)(componentName \<mapsto> EntitySet_remove entitySet entity) \<rparr>))"

subsection \<open>Queries and the flush\<close>

text \<open>
  The keys \<^verbatim>\<open>for (var key in entities)\<close> visits, in the order it visits them: the
  integer keys in ascending order. Every key of the table is an id that the counter has
  handed out, so it is below the counter (lemma \<open>mem_entityKeys\<close>).
\<close>

definition entityKeys :: "EntitySystem \<Rightarrow> nat list" where
  "entityKeys s = filter (\<lambda>key. entities s key \<noteq> None) [0..<counter s]"

definition backfill :: "EntitySystem \<Rightarrow> string \<Rightarrow> EntitySet \<Rightarrow> nat \<Rightarrow> EntitySet" where
  "backfill s componentName entitySet key =
     (case entities s key of
        None \<Rightarrow> entitySet
      | Some ent \<Rightarrow>
          if truthy (hasComponent s ent componentName)
          then EntitySet_add entitySet ent
          else entitySet)"

definition getEntities :: "EntitySystem \<Rightarrow> string \<Rightarrow> EntitySet \<times> EntitySystem" where
  "getEntities s componentName =
     (case entitySets s componentName of
        Some entitySet \<Rightarrow> (entitySet, s)
      | None \<Rightarrow>
          let entitySet = foldl (backfill s componentName) [] (entityKeys s)
          in (entitySet, s\<lparr> entitySets := (entitySets s)(componentName \<mapsto> entitySet) \<rparr>))"

definition getAllEntities :: "EntitySystem \<Rightarrow> (nat \<rightharpoonup> entity)" where
  "getAllEntities s = entities s"

definition flushChanges :: "EntitySystem \<Rightarrow> EntitySystem" where
  "flushChanges s =
     s\<lparr> entitySets :=
          (\<lambda>componentName. map_option EntitySet_flush (entitySets s componentName)),
        removedEntityComponentMap := Map.empty \<rparr>"

text \<open>
  \<^verbatim>\<open>removeAllEntities\<close> deletes from \<^verbatim>\<open>entities\<close> while it enumerates it; a key deleted
  before it is reached is not visited.
\<close>

definition removeKey :: "EntitySystem \<Rightarrow> nat \<Rightarrow> EntitySystem" where
  "removeKey s key =
     (case entities s key of
        None \<Rightarrow> s
      | Some ent \<Rightarrow> removeEntity s ent)"

definition removeAllEntities :: "EntitySystem \<Rightarrow> EntitySystem" where
  "removeAllEntities s = foldl removeKey s (entityKeys s)"

subsection \<open>Sequences of calls\<close>

text \<open>
  A sequence of calls ends at the first error. Where the source differs from the
  definitions, under a component name inherited from \<^verbatim>\<open>Object.prototype\<close>, its call
  either ends in a \<^verbatim>\<open>TypeError\<close> or leaves the tables as they were, so every state
  that the program reaches without an error is a reachable state below.
\<close>

datatype call =
    CreateEntity jsval
  | RemoveEntity entity
  | SetComponent entity string jsval
  | RemoveComponent entity string
  | GetEntities string
  | FlushChanges
  | RemoveAllEntities
  | SetLazySets bool

fun step :: "EntitySystem \<Rightarrow> call \<Rightarrow> error + EntitySystem" where
  "step s (CreateEntity idp) = Inr (snd (createEntity s idp))"
| "step s (RemoveEntity e) = Inr (removeEntity s e)"
| "step s (SetComponent e n v) = setComponent s e n v"
| "step s (RemoveComponent e n) = Inr (removeComponent s e n)"
| "step s (GetEntities n) = Inr (snd (getEntities s n))"
| "step s FlushChanges = Inr (flushChanges s)"
| "step s RemoveAllEntities = Inr (removeAllEntities s)"
| "step s (SetLazySets b) = Inr (s\<lparr> isLazySets := b \<rparr>)"

fun run :: "EntitySystem \<Rightarrow> call list \<Rightarrow> error + EntitySystem" where
  "run s [] = Inr s"
| "run s (c # cs) = (case step s c of Inl err \<Rightarrow> Inl err | Inr s' \<Rightarrow> run s' cs)"

text \<open>The entities handed out by the \<^verbatim>\<open>createEntity\<close> calls of a sequence, in call order.\<close>

fun created :: "EntitySystem \<Rightarrow> call list \<Rightarrow> entity list" where
  "created s [] = []"
| "created s (c # cs) =
     (case step s c of
        Inl err \<Rightarrow> []
      | Inr s' \<Rightarrow>
          (case c of CreateEntity idp \<Rightarrow> [fst (createEntity s idp)] | _ \<Rightarrow> []) @ created s' cs)"

inductive reachable :: "EntitySystem \<Rightarrow> bool" where
  reachable_new: "reachable EntitySystem_new"
| reachable_step: "reachable s \<Longrightarrow> step s c = Inr s' \<Longrightarrow> reachable s'"

subsection \<open>Vocabulary of the statements\<close>

text \<open>The value stored under a name in the active component map of an entity's id, if any.\<close>

definition activeValue :: "EntitySystem \<Rightarrow> entity \<Rightarrow> string \<Rightarrow> jsval option" where
  "activeValue s e n =
     (case entityComponentMap s (entity_id e) of None \<Rightarrow> None | Some m \<Rightarrow> objects s m n)"

text \<open>The value staged under a name in the removed component map of an entity's id, if any.\<close>

definition removedValue :: "EntitySystem \<Rightarrow> entity \<Rightarrow> string \<Rightarrow> jsval option" where
  "removedValue s e n =
     (case removedEntityComponentMap s (entity_id e) of None \<Rightarrow> None | Some m \<Rightarrow> objects s m n)"

text \<open>The state a fresh registry is in after a sequence of calls that did not throw.\<close>

definition after :: "call list \<Rightarrow> EntitySystem" where
  "after cs = projr (run EntitySystem_new cs)"

text \<open>
  The entity that the first \<^verbatim>\<open>createEntity\<close> of a fresh registry returns, and a second
  object that carries the same id.
\<close>

definition entity0 :: entity where
  "entity0 = \<lparr> eref = 0, entity_id = 0 \<rparr>"

definition stale0 :: entity where
  "stale0 = \<lparr> eref = 7, entity_id = 0 \<rparr>"

text \<open>
  The invariant of the reachable states: a stored carrier sits under its own id, which the
  counter has passed, and is an allocated object of its own; an active entity has a
  component map; component maps are allocated
  objects, one per id; and a removed component map is the active map of an id only for
  that same id, once \<^verbatim>\<open>removeEntity\<close> has taken the entity out of the table.
\<close>

definition registry_inv :: "EntitySystem \<Rightarrow> bool" where
  "registry_inv s \<longleftrightarrow>
     (\<forall>k e. entities s k = Some e \<longrightarrow>
        entity_id e = k \<and> k < counter s \<and> eref e < nextEntity s) \<and>
     (\<forall>k k' e e'. entities s k = Some e \<longrightarrow> entities s k' = Some e' \<longrightarrow>
        eref e = eref e' \<longrightarrow> k = k') \<and>
     (\<forall>k. entities s k \<noteq> None \<longrightarrow> entityComponentMap s k \<noteq> None) \<and>
     (\<forall>k r. entityComponentMap s k = Some r \<longrightarrow> r < nextObject s \<and> k < counter s) \<and>
     (\<forall>k k' r. entityComponentMap s k = Some r \<longrightarrow> entityComponentMap s k' = Some r \<longrightarrow> k = k') \<and>
     (\<forall>k r. removedEntityComponentMap s k = Some r \<longrightarrow>
        r < nextObject s \<and>
        (\<forall>k'. entityComponentMap s k' = Some r \<longrightarrow> k' = k \<and> entities s k = None))"

section \<open>Evaluation and reachability\<close>

lemmas eval_simps =
  createEntity_def generateUUID_def Entity_new_def Object_new_def setComponent_def
  removeEntity_def removeComponent_def flushChanges_def getComponent_def removedComponent_def
  hasComponent_def getEntities_def removeAllEntities_def removeKey_def entityKeys_def
  backfill_def EntitySystem_new_def getProp_def EntitySet_add_def EntitySet_change_def
  EntitySet_remove_def EntitySet_flush_def contains_def hasEntity_def Let_def entity0_def
  stale0_def after_def activeValue_def removedValue_def inheritedName_def
  ObjectPrototype_names_def

lemma run_ok: "run s cs \<noteq> Inl TypeError \<Longrightarrow> run s cs = Inr (projr (run s cs))"
  by (cases "run s cs") (auto intro: error.exhaust)

lemma reachable_run: "reachable s \<Longrightarrow> run s cs = Inr s' \<Longrightarrow> reachable s'"
proof (induction cs arbitrary: s)
  case Nil
  then show ?case by simp
next
  case (Cons c cs)
  then show ?case
    by (cases "step s c") (auto intro: reachable_step)
qed

lemma reachable_after: "run EntitySystem_new cs \<noteq> Inl TypeError \<Longrightarrow> reachable (after cs)"
  unfolding after_def using reachable_run [OF reachable_new] run_ok by blast

section \<open>The invariant holds in every reachable state\<close>

lemma inv_new: "registry_inv EntitySystem_new"
  by (simp add: registry_inv_def EntitySystem_new_def)

lemma inv_createEntity: "registry_inv s \<Longrightarrow> registry_inv (snd (createEntity s idp))"
  unfolding registry_inv_def createEntity_def generateUUID_def Entity_new_def Object_new_def Let_def
  by (auto simp: less_Suc_eq split: if_splits) (metis less_irrefl)+

lemma inv_removeEntity: "registry_inv s \<Longrightarrow> registry_inv (removeEntity s e)"
  unfolding registry_inv_def removeEntity_def
  by (cases "entities s (entity_id e)") (auto split: if_splits)

lemma inv_setComponent: "registry_inv s \<Longrightarrow> setComponent s e n v = Inr s' \<Longrightarrow> registry_inv s'"
  unfolding registry_inv_def setComponent_def Let_def
  by (auto split: if_splits option.splits)

lemma inv_removeComponent: "registry_inv s \<Longrightarrow> registry_inv (removeComponent s e n)"
  unfolding registry_inv_def removeComponent_def Object_new_def Let_def
  by (auto simp: less_Suc_eq split: option.splits if_splits)

lemma inv_getEntities: "registry_inv s \<Longrightarrow> registry_inv (snd (getEntities s n))"
  unfolding registry_inv_def getEntities_def Let_def
  by (simp split: option.splits)

lemma inv_flushChanges: "registry_inv s \<Longrightarrow> registry_inv (flushChanges s)"
  unfolding registry_inv_def flushChanges_def
  by simp

lemma inv_removeKey: "registry_inv s \<Longrightarrow> registry_inv (removeKey s k)"
  by (simp add: removeKey_def inv_removeEntity split: option.splits)

lemma inv_foldl_removeKey: "registry_inv s \<Longrightarrow> registry_inv (foldl removeKey s ks)"
  by (induction ks arbitrary: s) (simp_all add: inv_removeKey)

lemma inv_removeAllEntities: "registry_inv s \<Longrightarrow> registry_inv (removeAllEntities s)"
  by (simp add: removeAllEntities_def inv_foldl_removeKey)

lemma inv_step: "registry_inv s \<Longrightarrow> step s c = Inr s' \<Longrightarrow> registry_inv s'"
proof (cases c)
  case (SetLazySets b)
  assume "registry_inv s" "step s c = Inr s'"
  with SetLazySets show ?thesis by (auto simp: registry_inv_def)
qed (auto simp: inv_createEntity inv_removeEntity inv_setComponent inv_removeComponent
       inv_getEntities inv_flushChanges inv_removeAllEntities)

lemma reachable_inv: "reachable s \<Longrightarrow> registry_inv s"
  by (induction rule: reachable.induct) (auto intro: inv_new inv_step)

section \<open>What each call does to the counter and to the active registry\<close>

lemma counter_createEntity: "counter (snd (createEntity s idp)) = counter s + 1"
  by (simp add: createEntity_def generateUUID_def Entity_new_def Object_new_def Let_def)

lemma id_createEntity: "entity_id (fst (createEntity s idp)) = counter s"
  by (simp add: createEntity_def generateUUID_def Entity_new_def Object_new_def Let_def)

lemma counter_removeEntity: "counter (removeEntity s e) = counter s"
  by (simp add: removeEntity_def split: option.splits)

lemma counter_setComponent: "setComponent s e n v = Inr s' \<Longrightarrow> counter s' = counter s"
  by (auto simp: setComponent_def Let_def split: if_splits option.splits)

lemma counter_removeComponent: "counter (removeComponent s e n) = counter s"
  by (simp add: removeComponent_def Object_new_def Let_def split: option.splits)

lemma counter_getEntities: "counter (snd (getEntities s n)) = counter s"
  by (simp add: getEntities_def Let_def split: option.splits)

lemma counter_flushChanges: "counter (flushChanges s) = counter s"
  by (simp add: flushChanges_def)

lemma counter_foldl_removeKey: "counter (foldl removeKey s ks) = counter s"
  by (induction ks arbitrary: s) (simp_all add: removeKey_def counter_removeEntity split: option.splits)

lemma counter_removeAllEntities: "counter (removeAllEntities s) = counter s"
  by (simp add: removeAllEntities_def counter_foldl_removeKey)

lemma counter_step: "step s c = Inr s' \<Longrightarrow> counter s \<le> counter s'"
  by (cases c)
     (auto simp: counter_createEntity counter_removeEntity counter_setComponent
        counter_removeComponent counter_getEntities counter_flushChanges
        counter_removeAllEntities)

lemma created_lower: "x \<in> set (created s cs) \<Longrightarrow> counter s \<le> entity_id x"
proof (induction cs arbitrary: s)
  case Nil
  then show ?case by simp
next
  case (Cons c cs)
  show ?case
  proof (cases "step s c")
    case (Inl err)
    with Cons.prems show ?thesis by simp
  next
    case (Inr s')
    have le: "counter s \<le> counter s'" using Inr by (rule counter_step)
    from Cons.prems Inr
    consider (head) idp where "c = CreateEntity idp" "x = fst (createEntity s idp)"
      | (tail) "x \<in> set (created s' cs)"
      by (cases c) auto
    then show ?thesis
    proof cases
      case head
      then show ?thesis by (simp add: id_createEntity)
    next
      case tail
      from Cons.IH [OF tail] le show ?thesis by simp
    qed
  qed
qed

lemma created_increasing: "sorted_wrt (<) (map entity_id (created s cs))"
proof (induction cs arbitrary: s)
  case Nil
  then show ?case by simp
next
  case (Cons c cs)
  show ?case
  proof (cases "step s c")
    case (Inl err)
    then show ?thesis by simp
  next
    case (Inr s')
    show ?thesis
    proof (cases c)
      case (CreateEntity idp)
      with Inr have s': "s' = snd (createEntity s idp)" by simp
      have "\<forall>x\<in>set (created s' cs). counter s < entity_id x"
      proof
        fix x assume "x \<in> set (created s' cs)"
        then have "counter s' \<le> entity_id x" by (rule created_lower)
        then show "counter s < entity_id x" by (simp add: s' counter_createEntity)
      qed
      with Cons.IH [of s'] Inr CreateEntity show ?thesis
        by (simp add: id_createEntity)
    qed (use Cons.IH [of s'] Inr in auto)
  qed
qed

lemma ecm_createEntity:
  "entityComponentMap (snd (createEntity s idp)) = (entityComponentMap s)(counter s \<mapsto> nextObject s)"
  by (simp add: createEntity_def generateUUID_def Entity_new_def Object_new_def Let_def)

lemma ecm_removeEntity: "entityComponentMap (removeEntity s e) = entityComponentMap s"
  by (simp add: removeEntity_def split: option.splits)

lemma ecm_setComponent:
  "setComponent s e n v = Inr s' \<Longrightarrow> entityComponentMap s' = entityComponentMap s"
  by (auto simp: setComponent_def Let_def split: if_splits option.splits)

lemma ecm_removeComponent: "entityComponentMap (removeComponent s e n) = entityComponentMap s"
  by (simp add: removeComponent_def Object_new_def Let_def split: option.splits)

lemma ecm_getEntities: "entityComponentMap (snd (getEntities s n)) = entityComponentMap s"
  by (simp add: getEntities_def Let_def split: option.splits)

lemma ecm_flushChanges: "entityComponentMap (flushChanges s) = entityComponentMap s"
  by (simp add: flushChanges_def)

lemma ecm_foldl_removeKey: "entityComponentMap (foldl removeKey s ks) = entityComponentMap s"
  by (induction ks arbitrary: s) (simp_all add: removeKey_def ecm_removeEntity split: option.splits)

lemma ecm_removeAllEntities: "entityComponentMap (removeAllEntities s) = entityComponentMap s"
  by (simp add: removeAllEntities_def ecm_foldl_removeKey)

lemma ecm_step:
  assumes "registry_inv s" and "step s c = Inr s'" and "entityComponentMap s k = Some r"
  shows "entityComponentMap s' k = Some r"
proof (cases c)
  case (CreateEntity idp)
  from assms(1,3) have "k \<noteq> counter s" by (auto simp: registry_inv_def)
  with assms(2,3) CreateEntity show ?thesis by (auto simp: ecm_createEntity)
qed (use assms in \<open>auto simp: ecm_removeEntity ecm_setComponent ecm_removeComponent
       ecm_getEntities ecm_flushChanges ecm_removeAllEntities\<close>)

lemma setComponent_no_error:
  "registry_inv s \<Longrightarrow> setComponent s e n v \<noteq> Inl TypeError"
  by (auto simp: setComponent_def registry_inv_def Let_def split: option.splits)

lemma step_no_error: "registry_inv s \<Longrightarrow> step s c \<noteq> Inl TypeError"
  by (cases c) (simp_all add: setComponent_no_error)

section \<open>Stored carriers and the back-fill of a new entity set\<close>

lemma inv_stored_id: "registry_inv s \<Longrightarrow> entities s k = Some e \<Longrightarrow> entity_id e = k"
  unfolding registry_inv_def by blast

lemma inv_key_bound: "registry_inv s \<Longrightarrow> entities s k = Some e \<Longrightarrow> k < counter s"
  unfolding registry_inv_def by blast

lemma inv_eref_inj:
  "registry_inv s \<Longrightarrow> entities s k = Some e \<Longrightarrow> entities s k' = Some e' \<Longrightarrow> eref e = eref e' \<Longrightarrow> k = k'"
  unfolding registry_inv_def by blast


lemma hasEntity_stored:
  assumes "registry_inv s" and "hasEntity s e"
  shows "entities s (entity_id e) = Some e"
proof -
  from assms(2) obtain x where x: "entities s (entity_id e) = Some x" and r: "eref x = eref e"
    by (auto simp: hasEntity_def split: option.splits)
  from inv_stored_id [OF assms(1) x] r have "x = e" by simp
  with x show ?thesis by simp
qed

lemma stored_same_object:
  assumes "registry_inv s" and "hasEntity s e" and "entities s k = Some x" and "eref x = eref e"
  shows "x = e"
proof -
  from assms(1,2) have e: "entities s (entity_id e) = Some e" by (rule hasEntity_stored)
  from inv_eref_inj [OF assms(1) assms(3) e assms(4)] have "k = entity_id e" .
  with assms(3) e show ?thesis by simp
qed

lemma mem_entityKeys: "registry_inv s \<Longrightarrow> k \<in> set (entityKeys s) \<longleftrightarrow> entities s k \<noteq> None"
  using inv_key_bound [of s k] by (auto simp: entityKeys_def)

lemma set_foldl_backfill:
  "set (foldl (backfill s n) t ks) =
     set t \<union> {Add x |x k. k \<in> set ks \<and> entities s k = Some x \<and> truthy (hasComponent s x n)}"
proof (induction ks arbitrary: t)
  case Nil
  then show ?case by simp
next
  case (Cons k ks)
  show ?case
    unfolding foldl_Cons Cons.IH
    by (auto simp: backfill_def EntitySet_add_def split: option.splits)
qed

lemma foldl_member_after_adds:
  "\<forall>x\<in>set t. \<exists>y. x = Add y \<Longrightarrow>
   foldl (member_after e) b t \<longleftrightarrow> b \<or> (\<exists>y. Add y \<in> set t \<and> eref y = eref e)"
proof (induction t arbitrary: b)
  case Nil
  then show ?case by simp
next
  case (Cons x t)
  then obtain y where x: "x = Add y" by auto
  from Cons.prems have "\<forall>x\<in>set t. \<exists>y. x = Add y" by simp
  from Cons.IH [OF this] x show ?case by auto
qed

lemma Add_in_backfill:
  assumes "registry_inv s"
  shows "Add x \<in> set (foldl (backfill s n) [] (entityKeys s)) \<longleftrightarrow>
     entities s (entity_id x) = Some x \<and> truthy (hasComponent s x n)"
proof
  assume "Add x \<in> set (foldl (backfill s n) [] (entityKeys s))"
  then obtain k where k: "entities s k = Some x" and t: "truthy (hasComponent s x n)"
    by (auto simp: set_foldl_backfill)
  from inv_stored_id [OF assms k] k t
  show "entities s (entity_id x) = Some x \<and> truthy (hasComponent s x n)" by simp
next
  assume a: "entities s (entity_id x) = Some x \<and> truthy (hasComponent s x n)"
  then have "entity_id x \<in> set (entityKeys s)" by (simp add: mem_entityKeys [OF assms])
  with a show "Add x \<in> set (foldl (backfill s n) [] (entityKeys s))"
    unfolding set_foldl_backfill by blast
qed

lemma contains_backfill:
  assumes "registry_inv s"
  shows "contains (foldl (backfill s n) [] (entityKeys s)) e \<longleftrightarrow>
     (\<exists>x. entities s (entity_id x) = Some x \<and> truthy (hasComponent s x n) \<and> eref x = eref e)"
proof -
  have adds: "\<forall>x\<in>set (foldl (backfill s n) [] (entityKeys s)). \<exists>y. x = Add y"
    unfolding set_foldl_backfill by auto
  have "contains (foldl (backfill s n) [] (entityKeys s)) e \<longleftrightarrow>
        (\<exists>y. Add y \<in> set (foldl (backfill s n) [] (entityKeys s)) \<and> eref y = eref e)"
    unfolding contains_def using foldl_member_after_adds [OF adds] by simp
  then show ?thesis
    unfolding Add_in_backfill [OF assms] by blast
qed


lemma contains_snoc_Remove: "\<not> contains (t @ [Remove e]) e"
  by (simp add: contains_def)

section \<open>Calls on entities that the registry does not know\<close>

lemma setComponent_inactive: "entities s (entity_id e) = None \<Longrightarrow> setComponent s e n v = Inr s"
  by (simp add: setComponent_def)

lemma removeEntity_inactive: "entities s (entity_id e) = None \<Longrightarrow> removeEntity s e = s"
  by (simp add: removeEntity_def)

lemma removeComponent_unknown:
  "entityComponentMap s (entity_id e) = None \<Longrightarrow> removeComponent s e n = s"
  by (simp add: removeComponent_def)

lemma removeComponent_then_flush:
  "\<not> inheritedName n \<Longrightarrow> getComponent (flushChanges (removeComponent s e n)) e n = JNull"
  by (auto simp: getComponent_def removedComponent_def flushChanges_def removeComponent_def
        Object_new_def getProp_def Let_def split: option.splits)

section \<open>What \<^verbatim>\<open>removeComponent\<close> leaves alone\<close>

lemma entities_removeComponent: "entities (removeComponent s e n) = entities s"
  by (simp add: removeComponent_def Object_new_def Let_def split: option.splits)

lemma entitySets_removeComponent_None:
  "entitySets s n = None \<Longrightarrow> entitySets (removeComponent s e n) n = None"
  by (simp add: removeComponent_def Object_new_def Let_def split: option.splits)

lemma hasEntity_removeComponent: "hasEntity (removeComponent s e n) x = hasEntity s x"
  by (simp add: hasEntity_def entities_removeComponent)

section \<open>Claims\<close>

text \<open>
  C1. The claim is that a component removed during a tick reads as null after the next
  \<^verbatim>\<open>flushChanges\<close>. For \<^verbatim>\<open>removeComponent\<close> and a name that is not inherited that
  holds (lemma \<open>removeComponent_then_flush\<close>). After \<^verbatim>\<open>removeEntity\<close> it does not: the entity's
  component map stays in the active registry, which the flush does not touch, so
  \<^verbatim>\<open>getComponent\<close> still returns the value.
\<close>

theorem removeEntity_value_survives_flush:
  "run EntitySystem_new
     [CreateEntity JUndefined, SetComponent entity0 ''Position'' (JObj 0),
      RemoveEntity entity0, FlushChanges] \<noteq> Inl TypeError \<and>
   getComponent
     (after [CreateEntity JUndefined, SetComponent entity0 ''Position'' (JObj 0),
             RemoveEntity entity0, FlushChanges])
     entity0 ''Position'' = JObj 0"
  by (simp add: eval_simps)

text \<open>
  C2. The claim is that every id with an entry in the active component registry is in
  the active-entities table. \<^verbatim>\<open>removeEntity\<close> copies the entry to the removed registry
  and deletes the entity, but leaves the entry of the active registry in place: after
  \<^verbatim>\<open>createEntity(); removeEntity(e0)\<close> the id 0 has a component map and no entity.
\<close>

theorem removeEntity_leaves_component_map:
  "reachable (after [CreateEntity JUndefined, RemoveEntity entity0]) \<and>
   entityComponentMap (after [CreateEntity JUndefined, RemoveEntity entity0]) 0 = Some 0 \<and>
   entities (after [CreateEntity JUndefined, RemoveEntity entity0]) 0 = None"
proof -
  have "reachable (after [CreateEntity JUndefined, RemoveEntity entity0])"
    by (rule reachable_after) (simp add: eval_simps)
  then show ?thesis by (simp add: eval_simps)
qed

text \<open>
  C3. For an active entity \<open>e\<close> of a reachable state and a name \<open>n\<close> that is not
  inherited from \<^verbatim>\<open>Object.prototype\<close> and whose entity set exists or is created
  eagerly, \<^verbatim>\<open>setComponent(e, n, v)\<close> succeeds and appends exactly
  one notification to the set for \<open>n\<close>, leaving every other set as it was:
  \<^verbatim>\<open>change\<close> when the value stored under \<open>n\<close> in the active map before the call is
  truthy, \<^verbatim>\<open>add\<close> when \<open>n\<close> is absent or its value is falsy. The new value \<open>v\<close> plays
  no part.
\<close>

theorem setComponent_notifies_once:
  assumes "reachable s" and "entities s (entity_id e) \<noteq> None"
    and "entitySets s n \<noteq> None \<or> \<not> isLazySets s"
    and "\<not> inheritedName n"
  shows "\<exists>s'. setComponent s e n v = Inr s' \<and>
           entitySets s' n =
             Some ((case entitySets s n of None \<Rightarrow> [] | Some t \<Rightarrow> t) @
                   [case activeValue s e n of
                      None \<Rightarrow> Add e
                    | Some w \<Rightarrow> if truthy w then Change e else Add e]) \<and>
           (\<forall>m. m \<noteq> n \<longrightarrow> entitySets s' m = entitySets s m)"
proof -
  from assms(1) have w: "registry_inv s" by (rule reachable_inv)
  from w assms(2) obtain r where r: "entityComponentMap s (entity_id e) = Some r"
    by (auto simp: registry_inv_def)
  show ?thesis
  proof (cases "entitySets s n")
    case None
    with assms(3) have "\<not> isLazySets s" by simp
    with None r assms(2) show ?thesis
      by (auto simp: setComponent_def Let_def activeValue_def getProp_def
            EntitySet_add_def EntitySet_change_def split: option.splits)
  next
    case (Some t)
    with r assms(2) show ?thesis
      by (auto simp: setComponent_def Let_def activeValue_def getProp_def
            EntitySet_add_def EntitySet_change_def split: option.splits)
  qed
qed

theorem setComponent_notifies_once_witness:
  "reachable (after [CreateEntity JUndefined, SetComponent entity0 ''Position'' (JObj 1)]) \<and>
   \<not> inheritedName ''Position'' \<and>
   entities (after [CreateEntity JUndefined, SetComponent entity0 ''Position'' (JObj 1)])
     (entity_id entity0) \<noteq> None \<and>
   entitySets (after [CreateEntity JUndefined, SetComponent entity0 ''Position'' (JObj 1)])
     ''Position'' = Some [Add entity0] \<and>
   (\<exists>s'. setComponent (after [CreateEntity JUndefined, SetComponent entity0 ''Position'' (JObj 1)])
            entity0 ''Position'' (JObj 2) = Inr s' \<and>
         entitySets s' ''Position'' = Some [Add entity0, Change entity0])"
proof -
  have r: "reachable (after [CreateEntity JUndefined, SetComponent entity0 ''Position'' (JObj 1)])"
    by (rule reachable_after) (simp add: eval_simps)
  have a: "entities (after [CreateEntity JUndefined, SetComponent entity0 ''Position'' (JObj 1)])
             (entity_id entity0) \<noteq> None"
    by (simp add: eval_simps)
  have b: "entitySets (after [CreateEntity JUndefined, SetComponent entity0 ''Position'' (JObj 1)])
             ''Position'' = Some [Add entity0]"
    by (simp add: eval_simps)
  have c: "activeValue (after [CreateEntity JUndefined, SetComponent entity0 ''Position'' (JObj 1)])
             entity0 ''Position'' = Some (JObj 1)"
    by (simp add: eval_simps)
  from b have b': "entitySets (after [CreateEntity JUndefined, SetComponent entity0 ''Position'' (JObj 1)])
             ''Position'' \<noteq> None \<or>
        \<not> isLazySets (after [CreateEntity JUndefined, SetComponent entity0 ''Position'' (JObj 1)])"
    by simp
  have d: "\<not> inheritedName ''Position''"
    by (simp add: inheritedName_def ObjectPrototype_names_def)
  from setComponent_notifies_once [OF r a b' d, of "JObj 2"] r a b c d show ?thesis
    by auto
qed

text \<open>
  C3 as stated, with the choice depending on presence only and never on the old value,
  fails: over a stored \<open>0\<close> the second \<^verbatim>\<open>setComponent\<close> notifies \<^verbatim>\<open>add\<close>, over
  a stored \<open>5\<close> it notifies \<^verbatim>\<open>change\<close>.
\<close>

theorem setComponent_falsy_counterexample:
  "run EntitySystem_new
     [CreateEntity JUndefined, SetComponent entity0 ''Health'' (JNum 0),
      SetComponent entity0 ''Health'' (JNum 1)] \<noteq> Inl TypeError \<and>
   activeValue (after [CreateEntity JUndefined, SetComponent entity0 ''Health'' (JNum 0)])
     entity0 ''Health'' = Some (JNum 0) \<and>
   entitySets
     (after [CreateEntity JUndefined, SetComponent entity0 ''Health'' (JNum 0),
             SetComponent entity0 ''Health'' (JNum 1)]) ''Health''
     = Some [Add entity0, Add entity0] \<and>
   entitySets
     (after [CreateEntity JUndefined, SetComponent entity0 ''Health'' (JNum 5),
             SetComponent entity0 ''Health'' (JNum 1)]) ''Health''
     = Some [Add entity0, Change entity0]"
  by (simp add: eval_simps)

text \<open>
  C4. For a name \<open>n\<close> that is not inherited from \<^verbatim>\<open>Object.prototype\<close>,
  \<^verbatim>\<open>getComponent(e, n)\<close> returns the value stored under \<open>n\<close> in the active component
  map of \<open>e\<close>'s id when that value is truthy; otherwise the value staged under \<open>n\<close> in
  the removed component map of that id when that value is truthy; otherwise null.
\<close>

theorem getComponent_lookup:
  assumes "\<not> inheritedName n"
  shows "getComponent s e n =
     (case activeValue s e n of
        Some v \<Rightarrow>
          if truthy v then v
          else (case removedValue s e n of
                  Some w \<Rightarrow> if truthy w then w else JNull
                | None \<Rightarrow> JNull)
      | None \<Rightarrow>
          (case removedValue s e n of
             Some w \<Rightarrow> if truthy w then w else JNull
           | None \<Rightarrow> JNull))"
  by (simp add: getComponent_def removedComponent_def activeValue_def removedValue_def getProp_def
           split: option.splits)

theorem getComponent_lookup_witness:
  "\<not> inheritedName ''Position'' \<and>
   getComponent (after [CreateEntity JUndefined, SetComponent entity0 ''Position'' (JObj 3)])
     entity0 ''Position'' = JObj 3"
proof -
  have h: "\<not> inheritedName ''Position''"
    by (simp add: inheritedName_def ObjectPrototype_names_def)
  from getComponent_lookup [OF h,
      of "after [CreateEntity JUndefined, SetComponent entity0 ''Position'' (JObj 3)]" entity0] h
  show ?thesis
    by (simp add: eval_simps)
qed

text \<open>
  C4 as stated, with mere presence in the active map, fails: a stored \<open>0\<close> is present,
  and \<^verbatim>\<open>getComponent\<close> returns null.
\<close>

theorem getComponent_falsy_counterexample:
  "run EntitySystem_new [CreateEntity JUndefined, SetComponent entity0 ''Health'' (JNum 0)]
     \<noteq> Inl TypeError \<and>
   activeValue (after [CreateEntity JUndefined, SetComponent entity0 ''Health'' (JNum 0)]) entity0 ''Health''
     = Some (JNum 0) \<and>
   getComponent (after [CreateEntity JUndefined, SetComponent entity0 ''Health'' (JNum 0)]) entity0 ''Health''
     = JNull"
  by (simp add: eval_simps)

text \<open>
  C5. For an active entity \<open>e\<close> of a reachable state whose active component map holds a
  truthy value \<open>v\<close> under \<open>n\<close>, right after \<^verbatim>\<open>removeComponent(e, n)\<close>:
  \<^verbatim>\<open>hasComponent(e, n)\<close> is \<^verbatim>\<open>undefined\<close>, hence false; an existing entity set for \<open>n\<close>
  has received one more notification, \<^verbatim>\<open>remove\<close> for \<open>e\<close>, and \<^verbatim>\<open>getEntities(n)\<close>
  returns it and it does not contain \<open>e\<close> (nor does a set that \<^verbatim>\<open>getEntities(n)\<close> has
  to create, when \<open>e\<close> is the stored carrier); \<^verbatim>\<open>getComponent(e, n)\<close> still returns
  \<open>v\<close>; and what is staged for the same id under any other name is as it was.
\<close>

theorem removeComponent_keeps_value:
  assumes "reachable s" and "entities s (entity_id e) \<noteq> None"
    and "activeValue s e n = Some v" and "truthy v"
  shows "hasComponent (removeComponent s e n) e n = JUndefined \<and>
         activeValue (removeComponent s e n) e n = None \<and>
         (\<forall>t. entitySets s n = Some t \<longrightarrow>
            entitySets (removeComponent s e n) n = Some (t @ [Remove e]) \<and>
            fst (getEntities (removeComponent s e n) n) = t @ [Remove e] \<and>
            \<not> contains (fst (getEntities (removeComponent s e n) n)) e) \<and>
         (hasEntity s e \<longrightarrow> \<not> contains (fst (getEntities (removeComponent s e n) n)) e) \<and>
         getComponent (removeComponent s e n) e n = v \<and>
         (\<forall>m. m \<noteq> n \<longrightarrow> removedValue (removeComponent s e n) e m = removedValue s e m)"
proof -
  from assms(1) have w: "registry_inv s" by (rule reachable_inv)
  from assms(3) obtain r where r: "entityComponentMap s (entity_id e) = Some r"
    and v: "objects s r n = Some v"
    by (auto simp: activeValue_def split: option.splits)
  from w r have bound: "r < nextObject s" by (auto simp: registry_inv_def)
  from w r assms(2) have noalias: "removedEntityComponentMap s (entity_id e) \<noteq> Some r"
    by (auto simp: registry_inv_def)
  have main: "hasComponent (removeComponent s e n) e n = JUndefined \<and>
         activeValue (removeComponent s e n) e n = None \<and>
         (\<forall>t. entitySets s n = Some t \<longrightarrow>
            entitySets (removeComponent s e n) n = Some (t @ [Remove e]) \<and>
            fst (getEntities (removeComponent s e n) n) = t @ [Remove e] \<and>
            \<not> contains (fst (getEntities (removeComponent s e n) n)) e) \<and>
         getComponent (removeComponent s e n) e n = v \<and>
         (\<forall>m. m \<noteq> n \<longrightarrow> removedValue (removeComponent s e n) e m = removedValue s e m)"
  proof (cases "removedEntityComponentMap s (entity_id e)")
    case None
    with r v bound assms(4) show ?thesis
      by (auto simp: removeComponent_def Object_new_def Let_def hasComponent_def getProp_def
            activeValue_def removedValue_def getComponent_def removedComponent_def
            getEntities_def EntitySet_remove_def contains_def split: option.splits)
  next
    case (Some rr)
    with noalias have "rr \<noteq> r" by simp
    with Some r v assms(4) show ?thesis
      by (auto simp: removeComponent_def Object_new_def Let_def hasComponent_def getProp_def
            activeValue_def removedValue_def getComponent_def removedComponent_def
            getEntities_def EntitySet_remove_def contains_def split: option.splits)
  qed
  have held: "\<not> contains (fst (getEntities (removeComponent s e n) n)) e" if h: "hasEntity s e"
  proof (cases "entitySets s n")
    case (Some t)
    with main show ?thesis by blast
  next
    case None
    let ?s = "removeComponent s e n"
    have w': "registry_inv ?s" using w by (rule inv_removeComponent)
    have h': "hasEntity ?s e" using h by (simp add: hasEntity_removeComponent)
    have get: "fst (getEntities ?s n) = foldl (backfill ?s n) [] (entityKeys ?s)"
      using entitySets_removeComponent_None [OF None, of e]
      by (simp add: getEntities_def Let_def)
    show ?thesis
    proof
      assume "contains (fst (getEntities ?s n)) e"
      then obtain x where x: "entities ?s (entity_id x) = Some x"
        and t: "truthy (hasComponent ?s x n)" and same: "eref x = eref e"
        unfolding get contains_backfill [OF w'] by blast
      from stored_same_object [OF w' h' x same] have "x = e" .
      with t main show False by simp
    qed
  qed
  from main held show ?thesis by blast
qed

theorem removeComponent_keeps_value_witness:
  "reachable (after [CreateEntity JUndefined, SetComponent entity0 ''Position'' (JObj 1)]) \<and>
   entities (after [CreateEntity JUndefined, SetComponent entity0 ''Position'' (JObj 1)])
     (entity_id entity0) \<noteq> None \<and>
   activeValue (after [CreateEntity JUndefined, SetComponent entity0 ''Position'' (JObj 1)])
     entity0 ''Position'' = Some (JObj 1) \<and>
   truthy (JObj 1) \<and>
   hasEntity (after [CreateEntity JUndefined, SetComponent entity0 ''Position'' (JObj 1)]) entity0 \<and>
   hasComponent
     (removeComponent (after [CreateEntity JUndefined, SetComponent entity0 ''Position'' (JObj 1)])
        entity0 ''Position'') entity0 ''Position'' = JUndefined \<and>
   \<not> contains
     (fst (getEntities
        (removeComponent (after [CreateEntity JUndefined, SetComponent entity0 ''Position'' (JObj 1)])
           entity0 ''Position'') ''Position'')) entity0 \<and>
   getComponent
     (removeComponent (after [CreateEntity JUndefined, SetComponent entity0 ''Position'' (JObj 1)])
        entity0 ''Position'') entity0 ''Position'' = JObj 1"
proof -
  have r: "reachable (after [CreateEntity JUndefined, SetComponent entity0 ''Position'' (JObj 1)])"
    by (rule reachable_after) (simp add: eval_simps)
  have a: "entities (after [CreateEntity JUndefined, SetComponent entity0 ''Position'' (JObj 1)])
             (entity_id entity0) \<noteq> None"
    by (simp add: eval_simps)
  have b: "activeValue (after [CreateEntity JUndefined, SetComponent entity0 ''Position'' (JObj 1)])
             entity0 ''Position'' = Some (JObj 1)"
    by (simp add: eval_simps)
  have c: "truthy (JObj 1)" by simp
  have d: "hasEntity (after [CreateEntity JUndefined, SetComponent entity0 ''Position'' (JObj 1)])
             entity0"
    by (simp add: eval_simps)
  from removeComponent_keeps_value [OF r a b c] r a b c d show ?thesis by blast
qed

text \<open>
  C5 as stated, for every value \<open>v\<close>, fails: after the removal of a stored \<open>0\<close>,
  \<^verbatim>\<open>getComponent\<close> returns null, not \<open>0\<close>.
\<close>

theorem removeComponent_falsy_counterexample:
  "run EntitySystem_new [CreateEntity JUndefined, SetComponent entity0 ''Health'' (JNum 0)]
     \<noteq> Inl TypeError \<and>
   entities (after [CreateEntity JUndefined, SetComponent entity0 ''Health'' (JNum 0)])
     (entity_id entity0) = Some entity0 \<and>
   activeValue (after [CreateEntity JUndefined, SetComponent entity0 ''Health'' (JNum 0)])
     entity0 ''Health'' = Some (JNum 0) \<and>
   getComponent
     (removeComponent (after [CreateEntity JUndefined, SetComponent entity0 ''Health'' (JNum 0)])
        entity0 ''Health'') entity0 ''Health'' = JNull"
  by (simp add: eval_simps)

text \<open>
  C6. Over any sequence of calls on one registry, whatever else is called in between
  (removals and flushes included), the ids of the entities that the \<^verbatim>\<open>createEntity\<close>
  calls return are strictly increasing in call order, hence pairwise distinct; none is
  below the counter at the start, which in a reachable state is above the id of every
  entity in the table; and the \<^verbatim>\<open>id\<close> argument of \<^verbatim>\<open>createEntity\<close> does not
  influence the result.
\<close>

theorem createEntity_ids:
  "sorted_wrt (<) (map entity_id (created s cs)) \<and>
   distinct (map entity_id (created s cs)) \<and>
   (\<forall>x\<in>set (created s cs). counter s \<le> entity_id x) \<and>
   (\<forall>k e. reachable s \<longrightarrow> entities s k = Some e \<longrightarrow> k < counter s) \<and>
   createEntity s idp = createEntity s idq"
proof -
  have inc: "sorted_wrt (<) (map entity_id (created s cs))" by (rule created_increasing)
  then have dis: "distinct (map entity_id (created s cs))"
    by (simp add: strict_sorted_iff)
  have low: "\<forall>x\<in>set (created s cs). counter s \<le> entity_id x"
    by (simp add: created_lower)
  have old: "\<forall>k e. reachable s \<longrightarrow> entities s k = Some e \<longrightarrow> k < counter s"
    using reachable_inv by (auto simp: registry_inv_def)
  have par: "createEntity s idp = createEntity s idq"
    by (simp add: createEntity_def)
  from inc dis low old par show ?thesis by blast
qed

theorem createEntity_ids_witness:
  "map entity_id (created EntitySystem_new
      [CreateEntity JUndefined, RemoveEntity entity0, FlushChanges, CreateEntity (JNum 0)]) = [0, 1] \<and>
   sorted_wrt (<) [0, 1 :: nat] \<and> distinct [0, 1 :: nat]"
  using createEntity_ids [of EntitySystem_new
      "[CreateEntity JUndefined, RemoveEntity entity0, FlushChanges, CreateEntity (JNum 0)]"
      JUndefined "JNum 0"]
  by (simp add: eval_simps)




text \<open>
  C8. The claim is that \<^verbatim>\<open>setComponent\<close>, \<^verbatim>\<open>removeComponent\<close> and \<^verbatim>\<open>removeEntity\<close>
  leave the state alone for an entity that is not in the active-entities table. For
  \<^verbatim>\<open>setComponent\<close> and \<^verbatim>\<open>removeEntity\<close> that holds (lemmas \<open>setComponent_inactive\<close>,
  \<open>removeEntity_inactive\<close>). \<^verbatim>\<open>removeComponent\<close> tests the active component registry
  instead, where a removed entity keeps its entry: on an entity that was already removed
  it deletes the component from the map that the removed registry shares, so the value
  that was readable is lost before the flush, and it notifies the entity set again.
\<close>

theorem removeComponent_after_removeEntity:
  "run EntitySystem_new
     [CreateEntity JUndefined, SetComponent entity0 ''Position'' (JObj 0), RemoveEntity entity0]
     \<noteq> Inl TypeError \<and>
   entities (after [CreateEntity JUndefined, SetComponent entity0 ''Position'' (JObj 0),
                    RemoveEntity entity0]) (entity_id entity0) = None \<and>
   getComponent (after [CreateEntity JUndefined, SetComponent entity0 ''Position'' (JObj 0),
                        RemoveEntity entity0]) entity0 ''Position'' = JObj 0 \<and>
   getComponent
     (removeComponent (after [CreateEntity JUndefined, SetComponent entity0 ''Position'' (JObj 0),
                              RemoveEntity entity0]) entity0 ''Position'')
     entity0 ''Position'' = JNull \<and>
   entitySets (after [CreateEntity JUndefined, SetComponent entity0 ''Position'' (JObj 0),
                      RemoveEntity entity0]) ''Position'' = Some [Add entity0, Remove entity0] \<and>
   entitySets
     (removeComponent (after [CreateEntity JUndefined, SetComponent entity0 ''Position'' (JObj 0),
                              RemoveEntity entity0]) entity0 ''Position'')
     ''Position'' = Some [Add entity0, Remove entity0, Remove entity0]"
  by (simp add: eval_simps)

text \<open>
  C9. In every reachable state each id of the active-entities table has an entry in the
  active component registry. \<^verbatim>\<open>createEntity\<close> installs the entity together with an
  empty component map; no call removes or replaces an entry of the active component
  registry; and so \<^verbatim>\<open>setComponent\<close>, the only call that dereferences the component map
  without a guard, never raises.
\<close>

theorem active_entity_has_component_map:
  assumes "reachable s"
  shows "(\<forall>k. entities s k \<noteq> None \<longrightarrow> entityComponentMap s k \<noteq> None) \<and>
         entities (snd (createEntity s idp)) (entity_id (fst (createEntity s idp)))
           = Some (fst (createEntity s idp)) \<and>
         activeValue (snd (createEntity s idp)) (fst (createEntity s idp)) = Map.empty \<and>
         entityComponentMap (snd (createEntity s idp)) (entity_id (fst (createEntity s idp))) \<noteq> None \<and>
         (\<forall>c s' k r. step s c = Inr s' \<longrightarrow> entityComponentMap s k = Some r \<longrightarrow>
            entityComponentMap s' k = Some r) \<and>
         (\<forall>e n v. setComponent s e n v \<noteq> Inl TypeError) \<and>
         (\<forall>c. step s c \<noteq> Inl TypeError)"
proof -
  from assms have w: "registry_inv s" by (rule reachable_inv)
  then have a: "\<forall>k. entities s k \<noteq> None \<longrightarrow> entityComponentMap s k \<noteq> None"
    by (simp add: registry_inv_def)
  have b: "entities (snd (createEntity s idp)) (entity_id (fst (createEntity s idp)))
             = Some (fst (createEntity s idp))"
    by (simp add: createEntity_def generateUUID_def Entity_new_def Object_new_def Let_def)
  have c: "activeValue (snd (createEntity s idp)) (fst (createEntity s idp)) = Map.empty"
    by (rule ext)
       (simp add: activeValue_def createEntity_def generateUUID_def Entity_new_def
          Object_new_def Let_def)
  have d: "entityComponentMap (snd (createEntity s idp)) (entity_id (fst (createEntity s idp))) \<noteq> None"
    by (simp add: createEntity_def generateUUID_def Entity_new_def Object_new_def Let_def)
  have e: "\<forall>c s' k r. step s c = Inr s' \<longrightarrow> entityComponentMap s k = Some r \<longrightarrow>
            entityComponentMap s' k = Some r"
    using ecm_step [OF w] by blast
  have f: "\<forall>e n v. setComponent s e n v \<noteq> Inl TypeError"
    using setComponent_no_error [OF w] by blast
  have g: "\<forall>c. step s c \<noteq> Inl TypeError"
    using step_no_error [OF w] by blast
  from a b c d e f g show ?thesis by blast
qed

theorem active_entity_has_component_map_witness:
  "reachable (after [CreateEntity JUndefined, CreateEntity JUndefined, RemoveEntity entity0]) \<and>
   entities (after [CreateEntity JUndefined, CreateEntity JUndefined, RemoveEntity entity0]) 1 \<noteq> None \<and>
   entityComponentMap (after [CreateEntity JUndefined, CreateEntity JUndefined, RemoveEntity entity0]) 1 \<noteq> None"
proof -
  have r: "reachable (after [CreateEntity JUndefined, CreateEntity JUndefined, RemoveEntity entity0])"
    by (rule reachable_after) (simp add: eval_simps)
  have a: "entities (after [CreateEntity JUndefined, CreateEntity JUndefined, RemoveEntity entity0]) 1 \<noteq> None"
    by (simp add: eval_simps)
  from active_entity_has_component_map [OF r] a r show ?thesis by blast
qed

text \<open>
  C10. \<^verbatim>\<open>removeEntity\<close> looks its argument up by id only. For a handle \<open>h\<close> whose id is
  that of an active entity while \<^verbatim>\<open>hasEntity(h)\<close> is false (the stored carrier is another
  object), \<^verbatim>\<open>removeEntity(h)\<close> still takes the stored entity out of the active-entities
  table, and every existing entity set receives one \<^verbatim>\<open>remove\<close> notification whose
  argument is \<open>h\<close>, which is not the stored carrier.
\<close>

theorem removeEntity_validates_by_id:
  assumes "entities s (entity_id h) = Some stored" and "\<not> hasEntity s h"
  shows "entities (removeEntity s h) (entity_id h) = None \<and>
         getEntityByID (removeEntity s h) (entity_id h) = None \<and>
         (\<forall>n t. entitySets s n = Some t \<longrightarrow>
            entitySets (removeEntity s h) n = Some (t @ [Remove h])) \<and>
         (\<forall>n. entitySets s n = None \<longrightarrow> entitySets (removeEntity s h) n = None) \<and>
         Remove h \<noteq> Remove stored"
  using assms
  by (auto simp: removeEntity_def hasEntity_def getEntityByID_def EntitySet_remove_def)

theorem removeEntity_validates_by_id_witness:
  "entities (after [CreateEntity JUndefined, GetEntities ''Position'']) (entity_id stale0)
     = Some entity0 \<and>
   \<not> hasEntity (after [CreateEntity JUndefined, GetEntities ''Position'']) stale0 \<and>
   entities (removeEntity (after [CreateEntity JUndefined, GetEntities ''Position'']) stale0) 0
     = None \<and>
   entitySets (removeEntity (after [CreateEntity JUndefined, GetEntities ''Position'']) stale0)
     ''Position'' = Some [Remove stale0]"
proof -
  have a: "entities (after [CreateEntity JUndefined, GetEntities ''Position''])
             (entity_id stale0) = Some entity0"
    by (simp add: eval_simps)
  have b: "\<not> hasEntity (after [CreateEntity JUndefined, GetEntities ''Position'']) stale0"
    by (simp add: eval_simps)
  have c: "entitySets (after [CreateEntity JUndefined, GetEntities ''Position'']) ''Position''
             = Some []"
    by (simp add: eval_simps)
  from removeEntity_validates_by_id [OF a b] a b c show ?thesis
    by (simp add: stale0_def)
qed

end
